theory Spec2Isabelle
  imports Complex_Main "HOL-Library.Sublist"
begin

section \<open>The browser environment\<close>

text \<open>
  The dashboard keeps its session in the two Web Storage areas and reads the wall clock
  with \<^verbatim>\<open>new Date()\<close>. Both are ambient in the TypeScript; here they are the fields of
  one record that every operation takes and, when it writes, returns.
\<close>

type_synonym storage = "string \<rightharpoonup> string"

record browser =
  sessionStorage :: storage
  localStorage :: storage
  clock :: nat

text \<open>Every value thrown on the paths below is an \<^verbatim>\<open>Error\<close> instance with a message.\<close>

datatype js_error = Error (message: string)

text \<open>\<^verbatim>\<open>a || b\<close> on \<^verbatim>\<open>string | null\<close>: \<^verbatim>\<open>null\<close> and the empty string are falsy.\<close>

definition js_or :: "string option \<Rightarrow> string option \<Rightarrow> string option" where
  "js_or a b = (case a of None \<Rightarrow> b | Some s \<Rightarrow> if s = [] then b else Some s)"

text \<open>\<^verbatim>\<open>String.prototype.includes\<close>: the argument occurs as a contiguous substring.\<close>

fun js_includes :: "string \<Rightarrow> string \<Rightarrow> bool" where
  "js_includes [] sub = (sub = [])"
| "js_includes (c # s) sub = (prefix sub (c # s) \<or> js_includes s sub)"

text \<open>A number inside a template literal: its decimal digits.\<close>

fun decimal :: "nat \<Rightarrow> string" where
  "decimal n = (if n < 10 then [''0123456789'' ! n] else decimal (n div 10) @ [''0123456789'' ! (n mod 10)])"

declare decimal.simps [simp del]

section \<open>services/auth.ts\<close>

definition TOKEN_KEY :: string where
  "TOKEN_KEY = ''access_token''"

definition USERNAME_KEY :: string where
  "USERNAME_KEY = ''username''"

text \<open>
  The two \<^verbatim>\<open>setItem\<close> calls of a successful \<^verbatim>\<open>login\<close>: the only place where a token is
  written. Nothing but the token and the user name is stored.
\<close>

definition login_store :: "browser \<Rightarrow> string \<Rightarrow> string \<Rightarrow> browser" where
  "login_store w access_token username =
     w\<lparr>sessionStorage := (sessionStorage w)(TOKEN_KEY \<mapsto> access_token, USERNAME_KEY \<mapsto> username)\<rparr>"

definition logout :: "browser \<Rightarrow> browser" where
  "logout w =
     w\<lparr>sessionStorage := (sessionStorage w)(TOKEN_KEY := None, USERNAME_KEY := None),
       localStorage := (localStorage w)(TOKEN_KEY := None, USERNAME_KEY := None)\<rparr>"

definition getToken :: "browser \<Rightarrow> string option" where
  "getToken w = js_or (sessionStorage w TOKEN_KEY) (localStorage w TOKEN_KEY)"

definition isAuthenticated :: "browser \<Rightarrow> bool" where
  "isAuthenticated w = (getToken w \<noteq> None)"

definition getUsername :: "browser \<Rightarrow> string option" where
  "getUsername w = js_or (sessionStorage w USERNAME_KEY) (localStorage w USERNAME_KEY)"

subsection \<open>fetch\<close>

text \<open>
  What \<^verbatim>\<open>fetch\<close> is given and what it settles to. A response carries its status line and
  what reading its body as text or as JSON settles to; \<^verbatim>\<open>fetch\<close> itself rejects on a
  transport failure and resolves on every HTTP status.
\<close>

record request =
  url :: string
  headers :: "string \<rightharpoonup> string"

record 'j response =
  status :: nat
  statusText :: string
  body_text :: "js_error + string"
  body_json :: "js_error + 'j"

definition ok :: "'j response \<Rightarrow> bool" where
  "ok res = (200 \<le> status res \<and> status res \<le> 299)"

datatype 'j fetch_outcome = Rejected js_error | Responded "'j response"

text \<open>
  \<^verbatim>\<open>authenticatedFetch\<close> up to its \<^verbatim>\<open>await fetch\<close>: the token check and the headers. The
  caller's headers are taken as \<^verbatim>\<open>Headers\<close> has normalised them.
\<close>

definition authenticatedFetch_begin :: "browser \<Rightarrow> string \<Rightarrow> (string \<rightharpoonup> string) \<Rightarrow> js_error + request" where
  "authenticatedFetch_begin w u options_headers =
     (case getToken w of
        None \<Rightarrow> Inl (Error ''No authentication token found. Please login.'')
      | Some token \<Rightarrow>
          if token = [] then Inl (Error ''No authentication token found. Please login.'')
          else Inr \<lparr>url = u,
                    headers = ([''Content-Type'' \<mapsto> ''application/json''] ++ options_headers)
                                (''Authorization'' \<mapsto> ''Bearer '' @ token)\<rparr>)"

text \<open>\<^verbatim>\<open>authenticatedFetch\<close> from the moment \<^verbatim>\<open>fetch\<close> settles.\<close>

definition authenticatedFetch_end :: "browser \<Rightarrow> 'j fetch_outcome \<Rightarrow> (js_error + 'j response) \<times> browser" where
  "authenticatedFetch_end w outcome =
     (case outcome of
        Rejected e \<Rightarrow> (Inl e, w)
      | Responded res \<Rightarrow>
          if status res = 401 then (Inl (Error ''Session expired. Please login again.''), logout w)
          else (Inr res, w))"

definition authenticatedFetch ::
  "browser \<Rightarrow> (request \<Rightarrow> 'j fetch_outcome) \<Rightarrow> string \<Rightarrow> (string \<rightharpoonup> string) \<Rightarrow> (js_error + 'j response) \<times> browser" where
  "authenticatedFetch w remote u options_headers =
     (case authenticatedFetch_begin w u options_headers of
        Inl e \<Rightarrow> (Inl e, w)
      | Inr rq \<Rightarrow> authenticatedFetch_end w (remote rq))"

section \<open>services/aws-authenticated.ts\<close>

definition AWS_DETECTIONS_URL :: string where
  "AWS_DETECTIONS_URL = ''https://djpawwqotb.execute-api.eu-central-1.amazonaws.com/prod/detections''"

definition JETSON_ID :: string where
  "JETSON_ID = ''jetson_nano_01''"

definition detections_url :: string where
  "detections_url = AWS_DETECTIONS_URL @ ''?jetson_id='' @ JETSON_ID"

record Detection =
  label :: string
  confidence :: real

text \<open>
  A backend item, with the fields \<^verbatim>\<open>getLatestDetections\<close> reads. Optional fields are
  options; the \<open>item_\<close> prefix keeps them apart from the fields of \<open>LiveDetections\<close>.
\<close>

record DetectionRecord =
  item_timestamp :: string
  item_fps :: "real option"
  item_detections :: "Detection list option"
  item_image_key :: "string option"

record GetDetectionsResponse =
  Items :: "DetectionRecord list option"

text \<open>
  A timestamp string is either copied from a backend item or produced by
  \<^verbatim>\<open>new Date().toISOString()\<close> at some clock reading; the formatting is left symbolic.
\<close>

datatype timestamp = toISOString nat | reported string

record LiveDetections =
  timestamp :: timestamp
  fps :: real
  detections :: "Detection list"
  image_key :: "string option"

text \<open>The object literal returned at lines 42-46 and again at lines 68-72.\<close>

definition no_detections :: "browser \<Rightarrow> LiveDetections" where
  "no_detections w = \<lparr>timestamp = toISOString (clock w), fps = 0, detections = [], image_key = None\<rparr>"

text \<open>Lines 30-57: from the response to the value returned inside \<^verbatim>\<open>try\<close>.\<close>

definition getLatestDetections_body :: "browser \<Rightarrow> GetDetectionsResponse response \<Rightarrow> js_error + LiveDetections" where
  "getLatestDetections_body w res =
     (if \<not> ok res then
        (case body_text res of
           Inl e \<Rightarrow> Inl e
         | Inr errorText \<Rightarrow>
             Inl (Error (''AWS /detections failed: '' @ decimal (status res) @ '' '' @ statusText res
                          @ '' - '' @ errorText)))
      else
        (case body_json res of
           Inl e \<Rightarrow> Inl e
         | Inr data \<Rightarrow>
             (case (case Items data of None \<Rightarrow> [] | Some xs \<Rightarrow> xs) of
                [] \<Rightarrow> Inr (no_detections w)
              | latest # _ \<Rightarrow>
                  Inr \<lparr>timestamp = reported (item_timestamp latest),
                       fps = (case item_fps latest of None \<Rightarrow> 0 | Some f \<Rightarrow> f),
                       detections = (case item_detections latest of None \<Rightarrow> [] | Some ds \<Rightarrow> ds),
                       image_key = item_image_key latest\<rparr>)))"

text \<open>The \<^verbatim>\<open>try\<close> block, from the moment \<^verbatim>\<open>fetch\<close> settles, and as a whole.\<close>

definition getLatestDetections_try_end ::
  "browser \<Rightarrow> GetDetectionsResponse fetch_outcome \<Rightarrow> (js_error + LiveDetections) \<times> browser" where
  "getLatestDetections_try_end w outcome =
     (case authenticatedFetch_end w outcome of
        (Inl e, w') \<Rightarrow> (Inl e, w')
      | (Inr res, w') \<Rightarrow> (getLatestDetections_body w' res, w'))"

definition getLatestDetections_try ::
  "browser \<Rightarrow> (request \<Rightarrow> GetDetectionsResponse fetch_outcome) \<Rightarrow> (js_error + LiveDetections) \<times> browser" where
  "getLatestDetections_try w remote =
     (case authenticatedFetch_begin w detections_url Map.empty of
        Inl e \<Rightarrow> (Inl e, w)
      | Inr rq \<Rightarrow> getLatestDetections_try_end w (remote rq))"

text \<open>The \<^verbatim>\<open>catch\<close> block, lines 59-73.\<close>

definition getLatestDetections_catch :: "browser \<Rightarrow> js_error \<Rightarrow> js_error + LiveDetections" where
  "getLatestDetections_catch w e =
     (if js_includes (message e) ''login'' then Inl e else Inr (no_detections w))"

definition getLatestDetections_settle ::
  "(js_error + LiveDetections) \<times> browser \<Rightarrow> (js_error + LiveDetections) \<times> browser" where
  "getLatestDetections_settle r =
     (case r of
        (Inl e, w') \<Rightarrow> (getLatestDetections_catch w' e, w')
      | (Inr d, w') \<Rightarrow> (Inr d, w'))"

definition getLatestDetections ::
  "browser \<Rightarrow> (request \<Rightarrow> GetDetectionsResponse fetch_outcome) \<Rightarrow> (js_error + LiveDetections) \<times> browser" where
  "getLatestDetections w remote = getLatestDetections_settle (getLatestDetections_try w remote)"

definition getLatestDetections_end ::
  "browser \<Rightarrow> GetDetectionsResponse fetch_outcome \<Rightarrow> (js_error + LiveDetections) \<times> browser" where
  "getLatestDetections_end w outcome = getLatestDetections_settle (getLatestDetections_try_end w outcome)"


subsection \<open>startDetectionPolling and the LiveView callers\<close>

text \<open>
  The poller runs on the event loop: a call to \<^verbatim>\<open>getLatestDetections\<close> suspends at
  \<^verbatim>\<open>await fetch\<close> and is resumed when that request settles, and other calls may start in
  between. The state holds what the continuations share: the browser, the live interval
  handles, the requests handed to \<^verbatim>\<open>fetch\<close> so far (in dispatch order, a request's
  index being its identity), the requests not yet settled with the continuation that
  awaits each, and the two LiveView state variables the continuations write. Reading the
  body of a response is taken together with the settling of its request.
\<close>

datatype awaiting = Poll nat | Manual

record poller =
  world :: browser
  nextInterval :: nat
  intervals :: "nat set"
  fetched :: "request list"
  outstanding :: "(nat \<times> awaiting) list"
  detData :: LiveDetections
  detectionsLoading :: bool

text \<open>
  \<^verbatim>\<open>poll\<close> after \<^verbatim>\<open>await getLatestDetections()\<close>, lines 162-170, for the schedule with interval
  handle \<open>k\<close>; the callback LiveView passes is \<^verbatim>\<open>setDetData\<close>.
\<close>

definition poll_settled :: "nat \<Rightarrow> js_error + LiveDetections \<Rightarrow> poller \<Rightarrow> poller" where
  "poll_settled k r s =
     (case r of
        Inr d \<Rightarrow> s\<lparr>detData := d\<rparr>
      | Inl e \<Rightarrow> if js_includes (message e) ''login'' then s\<lparr>intervals := intervals s - {k}\<rparr> else s)"

text \<open>
  \<^verbatim>\<open>poll\<close> up to the \<^verbatim>\<open>await\<close>: either the request goes out, or \<^verbatim>\<open>authenticatedFetch\<close> has
  thrown before fetching and the call settles at once.
\<close>

definition poll :: "nat \<Rightarrow> poller \<Rightarrow> poller" where
  "poll k s =
     (case authenticatedFetch_begin (world s) detections_url Map.empty of
        Inl e \<Rightarrow>
          (case getLatestDetections_settle (Inl e, world s) of
             (r, w') \<Rightarrow> poll_settled k r (s\<lparr>world := w'\<rparr>))
      | Inr rq \<Rightarrow>
          s\<lparr>fetched := fetched s @ [rq],
            outstanding := outstanding s @ [(length (fetched s), Poll k)]\<rparr>)"

text \<open>
  \<^verbatim>\<open>startDetectionPolling\<close>: a first \<^verbatim>\<open>poll()\<close> and \<^verbatim>\<open>setInterval\<close>. The \<^verbatim>\<open>catch\<close> of that
  first \<^verbatim>\<open>poll\<close> runs after an \<^verbatim>\<open>await\<close>, hence after \<^verbatim>\<open>setInterval\<close> has returned the
  handle, so the handle is registered before \<open>poll\<close> is entered.
\<close>

definition startDetectionPolling :: "poller \<Rightarrow> poller" where
  "startDetectionPolling s =
     poll (nextInterval s)
       (s\<lparr>nextInterval := Suc (nextInterval s), intervals := insert (nextInterval s) (intervals s)\<rparr>)"

text \<open>\<^verbatim>\<open>refreshDetections\<close> of LiveView, after and up to its \<^verbatim>\<open>await\<close>.\<close>

definition refreshDetections_settled :: "js_error + LiveDetections \<Rightarrow> poller \<Rightarrow> poller" where
  "refreshDetections_settled r s =
     (case r of Inr d \<Rightarrow> s\<lparr>detData := d\<rparr> | Inl e \<Rightarrow> s)\<lparr>detectionsLoading := False\<rparr>"

definition refreshDetections :: "poller \<Rightarrow> poller" where
  "refreshDetections s =
     (case authenticatedFetch_begin (world s) detections_url Map.empty of
        Inl e \<Rightarrow>
          (case getLatestDetections_settle (Inl e, world s) of
             (r, w') \<Rightarrow> refreshDetections_settled r (s\<lparr>detectionsLoading := True, world := w'\<rparr>))
      | Inr rq \<Rightarrow>
          s\<lparr>detectionsLoading := True,
            fetched := fetched s @ [rq],
            outstanding := outstanding s @ [(length (fetched s), Manual)]\<rparr>)"

text \<open>The request with index \<open>i\<close> settles and the continuation awaiting it runs.\<close>

definition settle :: "nat \<Rightarrow> GetDetectionsResponse fetch_outcome \<Rightarrow> poller \<Rightarrow> poller" where
  "settle i outcome s =
     (case map_of (outstanding s) i of
        None \<Rightarrow> s
      | Some a \<Rightarrow>
          (case getLatestDetections_end (world s) outcome of
             (r, w') \<Rightarrow>
               (case a of
                  Poll k \<Rightarrow>
                    poll_settled k r
                      (s\<lparr>world := w', outstanding := filter (\<lambda>p. fst p \<noteq> i) (outstanding s)\<rparr>)
                | Manual \<Rightarrow>
                    refreshDetections_settled r
                      (s\<lparr>world := w', outstanding := filter (\<lambda>p. fst p \<noteq> i) (outstanding s)\<rparr>))))"

text \<open>
  What can happen to the poller: the auto-refresh effect starts a schedule or runs the
  cleanup it was given, a live interval fires, \<^verbatim>\<open>refreshDetections\<close> is called, a
  request settles. A cleared interval does not fire.
\<close>

datatype poller_event =
    StartPolling
  | StopPolling nat
  | Tick nat
  | Refresh
  | Settle nat "GetDetectionsResponse fetch_outcome"

fun poller_step :: "poller_event \<Rightarrow> poller \<Rightarrow> poller" where
  "poller_step StartPolling s = startDetectionPolling s"
| "poller_step (StopPolling k) s = s\<lparr>intervals := intervals s - {k}\<rparr>"
| "poller_step (Tick k) s = (if k \<in> intervals s then poll k s else s)"
| "poller_step Refresh s = refreshDetections s"
| "poller_step (Settle i outcome) s = settle i outcome s"

fun poller_run :: "poller_event list \<Rightarrow> poller \<Rightarrow> poller" where
  "poller_run [] s = s"
| "poller_run (e # es) s = poller_run es (poller_step e s)"

text \<open>LiveView as first rendered: no schedule, nothing fetched, the initial \<^verbatim>\<open>detData\<close>.\<close>

definition LiveView_poller :: "browser \<Rightarrow> poller" where
  "LiveView_poller w =
     \<lparr>world = w, nextInterval = 0, intervals = {}, fetched = [], outstanding = [],
      detData = no_detections w, detectionsLoading = False\<rparr>"


section \<open>pages/LiveView.tsx: the stream\<close>

datatype StreamState = idle | connecting | streaming | error

text \<open>
  What the awaits inside the \<^verbatim>\<open>try\<close> of \<^verbatim>\<open>startStream\<close> settle to in one attempt: creating
  the offer, setting it as local description, posting it to the Jetson, and setting the
  answer as remote description (\<open>None\<close>: resolved).
\<close>

record signaling =
  createOffer :: "js_error + string"
  setLocalDescription :: "js_error option"
  offer_fetch :: "string fetch_outcome"
  setRemoteDescription :: "js_error option"

text \<open>Lines 227-239: the error the \<^verbatim>\<open>try\<close> block throws, if it throws.\<close>

definition startStream_try :: "signaling \<Rightarrow> js_error option" where
  "startStream_try sg =
     (case createOffer sg of
        Inl e \<Rightarrow> Some e
      | Inr offer \<Rightarrow>
          (case setLocalDescription sg of
             Some e \<Rightarrow> Some e
           | None \<Rightarrow>
               (case offer_fetch sg of
                  Rejected e \<Rightarrow> Some e
                | Responded res \<Rightarrow>
                    if \<not> ok res then Some (Error (''Jetson /offer returned HTTP '' @ decimal (status res)))
                    else (case body_json res of
                            Inl e \<Rightarrow> Some e
                          | Inr answer \<Rightarrow> setRemoteDescription sg))))"

text \<open>
  The three state variables of the stream, and what the callbacks depend on: how many
  peer connections have been created, how many attempts are still inside their \<^verbatim>\<open>try\<close>,
  and how many \<^verbatim>\<open>play()\<close> promises have not settled.
\<close>

record stream =
  streamState :: StreamState
  streamError :: string
  hasVideo :: bool
  peerConnections :: nat
  negotiating :: nat
  plays :: nat

text \<open>\<^verbatim>\<open>startStream\<close> up to its first \<^verbatim>\<open>await\<close>: the guard, the three setters, the new connection.\<close>

definition startStream :: "stream \<Rightarrow> stream" where
  "startStream s =
     (if streamState s = connecting \<or> streamState s = streaming then s
      else s\<lparr>streamState := connecting, streamError := [], hasVideo := False,
             peerConnections := Suc (peerConnections s), negotiating := Suc (negotiating s)\<rparr>)"

text \<open>The rest of \<^verbatim>\<open>startStream\<close>: nothing after the last \<^verbatim>\<open>await\<close>, the \<^verbatim>\<open>catch\<close> on a throw.\<close>

definition startStream_settled :: "signaling \<Rightarrow> stream \<Rightarrow> stream" where
  "startStream_settled sg s =
     (case startStream_try sg of
        None \<Rightarrow> s
      | Some e \<Rightarrow>
          s\<lparr>streamState := error,
            streamError := ''Stream unavailable. Check Jetson URL / backend status, then try again.''\<rparr>)"

text \<open>
  \<^verbatim>\<open>pc.ontrack\<close>, given whether the event carries a stream and whether the video element is
  mounted; the two handlers chained on \<^verbatim>\<open>play()\<close>; \<^verbatim>\<open>onPlaying\<close> of the video element.
\<close>

definition ontrack :: "bool \<Rightarrow> bool \<Rightarrow> stream \<Rightarrow> stream" where
  "ontrack has_stream video_mounted s =
     (if video_mounted \<and> has_stream then s\<lparr>plays := Suc (plays s)\<rparr> else s)"

definition play_settled :: "bool \<Rightarrow> stream \<Rightarrow> stream" where
  "play_settled resolved s =
     (if resolved then s\<lparr>hasVideo := True, streamState := streaming\<rparr>
      else s\<lparr>streamState := streaming\<rparr>)"

definition onPlaying :: "stream \<Rightarrow> stream" where
  "onPlaying s = s\<lparr>hasVideo := True, streamState := streaming\<rparr>"

text \<open>
  What can happen to the stream: \<^verbatim>\<open>startStream\<close> is called, the exchange of an attempt that
  is under way runs to its end or throws, a connection that exists delivers a track, a
  pending \<^verbatim>\<open>play()\<close> resolves or rejects, the video element starts playing.
\<close>

datatype stream_event =
    StartStream
  | Negotiated signaling
  | Track bool bool
  | PlaySettled bool
  | Playing

fun stream_step :: "stream_event \<Rightarrow> stream \<Rightarrow> stream" where
  "stream_step StartStream s = startStream s"
| "stream_step (Negotiated sg) s =
     (if negotiating s = 0 then s else startStream_settled sg (s\<lparr>negotiating := negotiating s - 1\<rparr>))"
| "stream_step (Track has_stream video_mounted) s =
     (if peerConnections s = 0 then s else ontrack has_stream video_mounted s)"
| "stream_step (PlaySettled resolved) s =
     (if plays s = 0 then s else play_settled resolved (s\<lparr>plays := plays s - 1\<rparr>))"
| "stream_step Playing s = onPlaying s"

fun stream_run :: "stream_event list \<Rightarrow> stream \<Rightarrow> stream" where
  "stream_run [] s = s"
| "stream_run (e # es) s = stream_run es (stream_step e s)"

definition LiveView_stream :: stream where
  "LiveView_stream =
     \<lparr>streamState = idle, streamError = [], hasVideo = False,
      peerConnections = 0, negotiating = 0, plays = 0\<rparr>"

section \<open>pages/LiveView.tsx and services/jetson.ts: the control commands\<close>

datatype command = stop | threat

text \<open>
  \<^verbatim>\<open>sendStopTracking\<close> and \<^verbatim>\<open>sendMarkThreat\<close> from the moment their \<^verbatim>\<open>fetch\<close> settles: the
  error thrown, if any. They call \<^verbatim>\<open>fetch\<close> directly, with no token.
\<close>

definition sendStopTracking_end :: "'j fetch_outcome \<Rightarrow> js_error option" where
  "sendStopTracking_end outcome =
     (case outcome of
        Rejected e \<Rightarrow> Some e
      | Responded res \<Rightarrow>
          if \<not> ok res then Some (Error (''Stop tracking failed: HTTP '' @ decimal (status res))) else None)"

definition sendMarkThreat_end :: "'j fetch_outcome \<Rightarrow> js_error option" where
  "sendMarkThreat_end outcome =
     (case outcome of
        Rejected e \<Rightarrow> Some e
      | Responded res \<Rightarrow>
          if \<not> ok res then Some (Error (''Mark threat failed: HTTP '' @ decimal (status res))) else None)"

text \<open>
  \<^verbatim>\<open>controlLoading\<close> and \<^verbatim>\<open>controlMsg\<close> are state of the LiveView component, and App
  renders LiveView only on the live page of an authenticated user: navigating to the
  history page or logging out unmounts it, and a later mount starts from the initial
  values. A command posted to the Jetson is not cancelled by that. The state therefore
  says whether LiveView is mounted and which mount it is, holds the two state variables
  of the mounted component, and lists the commands posted and not yet settled, oldest
  first, each with the mount whose handler awaits it.
\<close>

record control =
  mounted :: bool
  mount :: nat
  controlLoading :: "command option"
  controlMsg :: string
  sending :: "(nat \<times> command) list"

definition handleStopTracking :: "control \<Rightarrow> control" where
  "handleStopTracking s =
     s\<lparr>controlMsg := [], controlLoading := Some stop, sending := sending s @ [(mount s, stop)]\<rparr>"

definition handleStopTracking_settled :: "'j fetch_outcome \<Rightarrow> control \<Rightarrow> control" where
  "handleStopTracking_settled outcome s =
     (case sendStopTracking_end outcome of
        None \<Rightarrow> s\<lparr>controlMsg := ''Stop tracking command sent successfully.''\<rparr>
      | Some e \<Rightarrow> s\<lparr>controlMsg := ''Failed to send stop tracking command (Jetson API not reachable yet).''\<rparr>)
     \<lparr>controlLoading := None\<rparr>"

definition handleMarkThreat :: "control \<Rightarrow> control" where
  "handleMarkThreat s =
     s\<lparr>controlMsg := [], controlLoading := Some threat, sending := sending s @ [(mount s, threat)]\<rparr>"

definition handleMarkThreat_settled :: "'j fetch_outcome \<Rightarrow> control \<Rightarrow> control" where
  "handleMarkThreat_settled outcome s =
     (case sendMarkThreat_end outcome of
        None \<Rightarrow> s\<lparr>controlMsg := ''Mark as threat command sent successfully.''\<rparr>
      | Some e \<Rightarrow> s\<lparr>controlMsg := ''Failed to send mark threat command (Jetson API not reachable yet).''\<rparr>)
     \<lparr>controlLoading := None\<rparr>"

text \<open>
  A dispatch is a click on one of the two buttons, both of which carry
  \<^verbatim>\<open>disabled={controlLoading !== null}\<close>: a disabled button does not call its handler.
  The handlers themselves have no guard.
\<close>

definition click :: "command \<Rightarrow> control \<Rightarrow> control" where
  "click c s =
     (if controlLoading s \<noteq> None then s
      else (case c of stop \<Rightarrow> handleStopTracking s | threat \<Rightarrow> handleMarkThreat s))"

text \<open>
  The rest of a handler runs when its request settles. Its setters belong to the mount
  that started it: when that mount is still the mounted one they act, otherwise the
  component is gone and they change nothing.
\<close>

definition command_settled :: "nat \<Rightarrow> 'j fetch_outcome \<Rightarrow> control \<Rightarrow> control" where
  "command_settled i outcome s =
     (case sending s ! i of
        (m, c) \<Rightarrow>
          if mounted s \<and> m = mount s then
            (case c of
               stop \<Rightarrow> handleStopTracking_settled outcome
                         (s\<lparr>sending := take i (sending s) @ drop (Suc i) (sending s)\<rparr>)
             | threat \<Rightarrow> handleMarkThreat_settled outcome
                           (s\<lparr>sending := take i (sending s) @ drop (Suc i) (sending s)\<rparr>))
          else s\<lparr>sending := take i (sending s) @ drop (Suc i) (sending s)\<rparr>)"

text \<open>The \<^verbatim>\<open>useState\<close> initial values of a fresh mount.\<close>

definition LiveView_mount :: "control \<Rightarrow> control" where
  "LiveView_mount s = s\<lparr>mounted := True, mount := Suc (mount s), controlLoading := None, controlMsg := []\<rparr>"

text \<open>
  What can happen to the controls: a button of the mounted LiveView is clicked, the
  request of the unsettled command at the given position settles with the given outcome,
  App unmounts LiveView, App mounts it again.
\<close>

datatype 'j control_event = Click command | Settled nat "'j fetch_outcome" | Unmount | Mount

fun control_step :: "'j control_event \<Rightarrow> control \<Rightarrow> control" where
  "control_step (Click c) s = (if mounted s then click c s else s)"
| "control_step (Settled i outcome) s = (if i < length (sending s) then command_settled i outcome s else s)"
| "control_step Unmount s = s\<lparr>mounted := False\<rparr>"
| "control_step Mount s = (if mounted s then s else LiveView_mount s)"

fun control_run :: "'j control_event list \<Rightarrow> control \<Rightarrow> control" where
  "control_run [] s = s"
| "control_run (e # es) s = control_run es (control_step e s)"

definition LiveView_control :: control where
  "LiveView_control = \<lparr>mounted = True, mount = 0, controlLoading = None, controlMsg = [], sending = []\<rparr>"

section \<open>The upload gate\<close>







section \<open>Invariants of the event models\<close>



text \<open>
  The unsettled commands of the current mount are exactly the one \<^verbatim>\<open>controlLoading\<close> names,
  if it names one, and no unsettled command belongs to a mount still to come.
\<close>

definition pending :: "control \<Rightarrow> (nat \<times> command) list" where
  "pending s = filter (\<lambda>p. fst p = mount s) (sending s)"

definition control_inv :: "control \<Rightarrow> bool" where
  "control_inv s =
     ((\<forall>p \<in> set (sending s). fst p \<le> mount s)
      \<and> (mounted s \<longrightarrow> pending s = (case controlLoading s of None \<Rightarrow> [] | Some c \<Rightarrow> [(mount s, c)])))"

text \<open>Every request that is awaited is one of the requests handed to \<^verbatim>\<open>fetch\<close>.\<close>

definition requests_known :: "poller \<Rightarrow> bool" where
  "requests_known s = (\<forall>p \<in> set (outstanding s). fst p < length (fetched s))"

section \<open>Scenarios\<close>

text \<open>A browser in which \<^verbatim>\<open>login\<close> has just stored a token, and the same browser an hour later.\<close>

definition logged_in :: browser where
  "logged_in =
     login_store \<lparr>sessionStorage = Map.empty, localStorage = Map.empty, clock = 0\<rparr> ''tok'' ''testuser''"

definition an_hour_later :: browser where
  "an_hour_later = logged_in\<lparr>clock := 3600000\<rparr>"

text \<open>Backends: one that knows no items, one that fails, one that rejects the token.\<close>

definition empty_items :: "request \<Rightarrow> GetDetectionsResponse fetch_outcome" where
  "empty_items rq =
     Responded \<lparr>status = 200, statusText = ''OK'', body_text = Inr ''{\"Items\":[]}'',
                body_json = Inr \<lparr>Items = Some []\<rparr>\<rparr>"

definition server_error :: "request \<Rightarrow> GetDetectionsResponse fetch_outcome" where
  "server_error rq =
     Responded \<lparr>status = 500, statusText = ''Internal Server Error'', body_text = Inr ''boom'',
                body_json = Inl (Error ''Unexpected token'')\<rparr>"

definition unauthorized :: "GetDetectionsResponse response" where
  "unauthorized =
     \<lparr>status = 401, statusText = ''Unauthorized'', body_text = Inr [],
      body_json = Inl (Error ''Unexpected end of JSON input'')\<rparr>"


text \<open>A response whose latest item holds one detection with the given label, and its snapshot.\<close>

definition one_item :: "string \<Rightarrow> GetDetectionsResponse fetch_outcome" where
  "one_item l =
     Responded \<lparr>status = 200, statusText = ''OK'', body_text = Inr [],
                body_json = Inr \<lparr>Items = Some [\<lparr>item_timestamp = ''2025-02-01T12:00:00Z'', item_fps = Some 8,
                   item_detections = Some [\<lparr>label = l, confidence = 1\<rparr>], item_image_key = None\<rparr>]\<rparr>\<rparr>"

definition snapshot_of :: "string \<Rightarrow> LiveDetections" where
  "snapshot_of l =
     \<lparr>timestamp = reported ''2025-02-01T12:00:00Z'', fps = 8,
      detections = [\<lparr>label = l, confidence = 1\<rparr>], image_key = None\<rparr>"

text \<open>
  Auto-refresh is switched on: \<^verbatim>\<open>handleAutoRefreshToggle\<close> calls \<^verbatim>\<open>refreshDetections\<close> and
  the effect then calls \<^verbatim>\<open>startDetectionPolling\<close>.
\<close>

definition toggled_on :: poller where
  "toggled_on = poller_run [Refresh, StartPolling] (LiveView_poller logged_in)"

text \<open>A schedule is running and the backend rejects the token of its first request.\<close>

definition polling :: poller where
  "polling = poller_run [StartPolling] (LiveView_poller logged_in)"

definition expired :: poller where
  "expired = poller_step (Settle 0 (Responded unauthorized)) polling"

text \<open>A signaling exchange that succeeds at every step, and a stream that is playing.\<close>

definition answered :: signaling where
  "answered =
     \<lparr>createOffer = Inr ''v=0 offer'', setLocalDescription = None,
      offer_fetch = Responded \<lparr>status = 200, statusText = ''OK'', body_text = Inr ''v=0 answer'',
                               body_json = Inr ''v=0 answer''\<rparr>,
      setRemoteDescription = None\<rparr>"

definition playing_stream :: stream where
  "playing_stream = stream_run [StartStream, Negotiated answered, Track True True, PlaySettled True] LiveView_stream"

text \<open>
  Stop tracking is clicked, the user goes to the history page and comes back before the
  request has settled, and marks a threat.
\<close>

definition remounted :: control where
  "remounted = control_run [Click stop, Unmount, Mount, Click threat :: unit control_event] LiveView_control"



section \<open>The session\<close>


lemma getToken_logged_in: "getToken logged_in = Some ''tok''"
  by (simp add: getToken_def js_or_def logged_in_def login_store_def TOKEN_KEY_def USERNAME_KEY_def)

lemma begin_logged_in:
  "authenticatedFetch_begin logged_in u Map.empty =
     Inr \<lparr>url = u, headers = [''Content-Type'' \<mapsto> ''application/json'', ''Authorization'' \<mapsto> ''Bearer tok'']\<rparr>"
  by (simp add: authenticatedFetch_begin_def getToken_logged_in)

lemma end_unauthorized:
  "status res = 401 \<Longrightarrow>
   getLatestDetections_end w (Responded res) = (Inl (Error ''Session expired. Please login again.''), logout w)"
  by (simp add: getLatestDetections_end_def getLatestDetections_try_end_def authenticatedFetch_end_def
      getLatestDetections_settle_def getLatestDetections_catch_def)

lemma end_one_item: "getLatestDetections_end w (one_item l) = (Inr (snapshot_of l), w)"
  by (simp add: getLatestDetections_end_def getLatestDetections_try_end_def authenticatedFetch_end_def
      getLatestDetections_settle_def getLatestDetections_body_def one_item_def ok_def snapshot_of_def)

text \<open>
  Claim C1, as stated: a read of the token at or after the session's expiry returns absent
  and clears the stored session. It fails: the stored session has no expiry and
  \<open>getToken\<close> reads no clock, so an hour after the login (the lifetime the login page
  announces for a token) the token is still returned and the user still counts as
  authenticated.
\<close>

theorem getToken_expired_counterexample:
  "getToken an_hour_later = Some ''tok'' \<and> isAuthenticated an_hour_later"
  by (simp add: an_hour_later_def logged_in_def login_store_def getToken_def isAuthenticated_def
      js_or_def TOKEN_KEY_def USERNAME_KEY_def)

text \<open>
  Claim C1, amended: a read of the token does not depend on the time of the read. A
  non-empty token that \<^verbatim>\<open>login\<close> has stored is returned at every later time, and the
  read is absent exactly when session storage holds no token or an empty one and local
  storage holds none.
\<close>

theorem getToken_ignores_clock:
  "getToken (w\<lparr>clock := t\<rparr>) = getToken w
   \<and> isAuthenticated (w\<lparr>clock := t\<rparr>) = isAuthenticated w
   \<and> (access_token \<noteq> [] \<longrightarrow> getToken ((login_store w access_token username)\<lparr>clock := t\<rparr>) = Some access_token)
   \<and> (getToken w = None) =
       ((sessionStorage w TOKEN_KEY = None \<or> sessionStorage w TOKEN_KEY = Some [])
        \<and> localStorage w TOKEN_KEY = None)"
  by (auto simp add: getToken_def isAuthenticated_def js_or_def login_store_def TOKEN_KEY_def USERNAME_KEY_def
      split: option.splits)

theorem getToken_ignores_clock_witness:
  "''tok'' \<noteq> [] \<and> getToken an_hour_later = getToken logged_in
   \<and> getToken ((login_store logged_in ''tok'' ''testuser'')\<lparr>clock := 3600000\<rparr>) = Some ''tok''"
  using getToken_ignores_clock [where w = logged_in and t = 3600000 and access_token = "''tok''"
      and username = "''testuser''"]
  by (simp add: an_hour_later_def)




section \<open>The detection poller\<close>












lemma known_poll_settled: "requests_known s \<Longrightarrow> requests_known (poll_settled j r s)"
  by (auto simp add: requests_known_def poll_settled_def split: sum.splits)

lemma known_refresh_settled: "requests_known s \<Longrightarrow> requests_known (refreshDetections_settled r s)"
  by (auto simp add: requests_known_def refreshDetections_settled_def split: sum.splits)

lemma known_poll: "requests_known s \<Longrightarrow> requests_known (poll j s)"
proof (cases "authenticatedFetch_begin (world s) detections_url Map.empty")
  case (Inl e)
  assume h: "requests_known s"
  obtain r w' where "getLatestDetections_settle (Inl e, world s) = (r, w')"
    by (cases "getLatestDetections_settle (Inl e, world s)")
  moreover have "requests_known (s\<lparr>world := w'\<rparr>)" using h by (simp add: requests_known_def)
  ultimately show ?thesis using Inl known_poll_settled by (simp add: poll_def)
next
  case (Inr rq)
  assume "requests_known s"
  then show ?thesis using Inr by (auto simp add: poll_def requests_known_def less_Suc_eq)
qed

lemma known_refresh: "requests_known s \<Longrightarrow> requests_known (refreshDetections s)"
proof (cases "authenticatedFetch_begin (world s) detections_url Map.empty")
  case (Inl e)
  assume h: "requests_known s"
  obtain r w' where "getLatestDetections_settle (Inl e, world s) = (r, w')"
    by (cases "getLatestDetections_settle (Inl e, world s)")
  moreover have "requests_known (s\<lparr>detectionsLoading := True, world := w'\<rparr>)"
    using h by (simp add: requests_known_def)
  ultimately show ?thesis using Inl known_refresh_settled by (simp add: refreshDetections_def)
next
  case (Inr rq)
  assume "requests_known s"
  then show ?thesis using Inr by (auto simp add: refreshDetections_def requests_known_def less_Suc_eq)
qed

lemma known_settle: "requests_known s \<Longrightarrow> requests_known (settle i outcome s)"
proof (cases "map_of (outstanding s) i")
  case None
  assume "requests_known s"
  then show ?thesis using None by (simp add: settle_def)
next
  case (Some a)
  assume h: "requests_known s"
  obtain r w' where e: "getLatestDetections_end (world s) outcome = (r, w')"
    by (cases "getLatestDetections_end (world s) outcome")
  let ?s1 = "s\<lparr>world := w', outstanding := filter (\<lambda>p. fst p \<noteq> i) (outstanding s)\<rparr>"
  have s1: "requests_known ?s1" using h by (auto simp add: requests_known_def)
  show ?thesis
  proof (cases a)
    case (Poll j)
    then show ?thesis using Some e known_poll_settled [OF s1] by (simp add: settle_def)
  next
    case Manual
    then show ?thesis using Some e known_refresh_settled [OF s1] by (simp add: settle_def)
  qed
qed

lemma known_step: "requests_known s \<Longrightarrow> requests_known (poller_step e s)"
proof (cases e)
  case StartPolling
  assume h: "requests_known s"
  then have "requests_known (s\<lparr>nextInterval := Suc (nextInterval s), intervals := insert (nextInterval s) (intervals s)\<rparr>)"
    by (simp add: requests_known_def)
  then show ?thesis using StartPolling by (simp add: startDetectionPolling_def known_poll)
next
  case (StopPolling j)
  assume "requests_known s"
  then show ?thesis using StopPolling by (simp add: requests_known_def)
next
  case (Tick j)
  assume "requests_known s"
  then show ?thesis using Tick by (simp add: known_poll)
next
  case Refresh
  assume "requests_known s"
  then show ?thesis using Refresh by (simp add: known_refresh)
next
  case (Settle i outcome)
  assume "requests_known s"
  then show ?thesis using Settle by (simp add: known_settle)
qed

lemma known_run: "requests_known s \<Longrightarrow> requests_known (poller_run evs s)"
  by (induction evs arbitrary: s) (simp_all add: known_step)

lemma known_LiveView: "requests_known (poller_run evs (LiveView_poller w))"
  by (rule known_run) (simp add: requests_known_def LiveView_poller_def)

text \<open>A request just handed to \<^verbatim>\<open>fetch\<close> is awaited by the call that dispatched it and by no other.\<close>

lemma newest_awaited:
  assumes "requests_known s"
  shows "map_of (outstanding s @ [(length (fetched s), a)]) (length (fetched s)) = Some a
       \<and> filter (\<lambda>p. fst p \<noteq> length (fetched s)) (outstanding s @ [(length (fetched s), a)]) = outstanding s"
proof -
  have fresh: "\<forall>p \<in> set (outstanding s). fst p \<noteq> length (fetched s)"
    using assms by (auto simp add: requests_known_def)
  then have "length (fetched s) \<notin> fst ` set (outstanding s)" by auto
  then have "map_of (outstanding s) (length (fetched s)) = None" by (simp add: map_of_eq_None_iff)
  then have "map_of (outstanding s @ [(length (fetched s), a)]) (length (fetched s)) = Some a"
    by (simp add: map_add_def)
  moreover have "filter (\<lambda>p. fst p \<noteq> length (fetched s)) (outstanding s) = outstanding s"
    using fresh by (simp add: filter_id_conv)
  ultimately show ?thesis by simp
qed

lemma polling_eq:
  "polling =
     \<lparr>world = logged_in, nextInterval = 1, intervals = {0},
      fetched = [\<lparr>url = detections_url,
                  headers = [''Content-Type'' \<mapsto> ''application/json'', ''Authorization'' \<mapsto> ''Bearer tok'']\<rparr>],
      outstanding = [(0, Poll 0)],
      detData = no_detections logged_in, detectionsLoading = False\<rparr>"
  by (simp add: polling_def LiveView_poller_def startDetectionPolling_def poll_def begin_logged_in)

lemma expired_eq:
  "expired =
     \<lparr>world = logout logged_in, nextInterval = 1, intervals = {},
      fetched = [\<lparr>url = detections_url,
                  headers = [''Content-Type'' \<mapsto> ''application/json'', ''Authorization'' \<mapsto> ''Bearer tok'']\<rparr>],
      outstanding = [],
      detData = no_detections logged_in, detectionsLoading = False\<rparr>"
  by (simp add: expired_def polling_eq settle_def end_unauthorized unauthorized_def poll_settled_def)

lemma toggled_on_eq:
  "toggled_on =
     \<lparr>world = logged_in, nextInterval = 1, intervals = {0},
      fetched = [\<lparr>url = detections_url,
                  headers = [''Content-Type'' \<mapsto> ''application/json'', ''Authorization'' \<mapsto> ''Bearer tok'']\<rparr>,
                 \<lparr>url = detections_url,
                  headers = [''Content-Type'' \<mapsto> ''application/json'', ''Authorization'' \<mapsto> ''Bearer tok'']\<rparr>],
      outstanding = [(0, Manual), (1, Poll 0)],
      detData = no_detections logged_in, detectionsLoading = True\<rparr>"
  by (simp add: toggled_on_def LiveView_poller_def refreshDetections_def startDetectionPolling_def poll_def
      begin_logged_in)




text \<open>
  Claim C4, as stated: fetches issued while an earlier one is outstanding share one
  network request. It fails: switching auto-refresh on calls \<^verbatim>\<open>refreshDetections\<close> and
  then \<^verbatim>\<open>startDetectionPolling\<close>, whose first \<^verbatim>\<open>poll\<close> fetches while the manual request is
  still outstanding; two requests have gone out and both are awaited.
\<close>

theorem single_flight_counterexample:
  "length (fetched toggled_on) = 2 \<and> outstanding toggled_on = [(0, Manual), (1, Poll 0)]"
  by (simp add: toggled_on_eq)

text \<open>
  Claim C4, amended: with a usable token every call fetches for itself, whatever is
  outstanding. A tick of a live schedule, a manual refresh and the start of a schedule
  each hand one more request to \<^verbatim>\<open>fetch\<close> and await exactly that request, so \<open>n\<close> ticks
  in a row dispatch \<open>n\<close> requests. Each caller receives the result of its own request:
  when the request just dispatched settles, its result is handed to the continuation of
  the call that dispatched it, and the requests that were outstanding before stay awaited
  by their own callers. This holds wherever every awaited request is one of the requests
  dispatched so far, which is so in every state LiveView can reach and stays so with
  every event.
\<close>

theorem every_call_fetches:
  assumes "authenticatedFetch_begin (world s) detections_url Map.empty = Inr rq"
  shows "(k \<in> intervals s \<longrightarrow>
            fetched (poller_step (Tick k) s) = fetched s @ [rq]
            \<and> outstanding (poller_step (Tick k) s) = outstanding s @ [(length (fetched s), Poll k)])
       \<and> fetched (poller_step Refresh s) = fetched s @ [rq]
       \<and> outstanding (poller_step Refresh s) = outstanding s @ [(length (fetched s), Manual)]
       \<and> fetched (poller_step StartPolling s) = fetched s @ [rq]
       \<and> outstanding (poller_step StartPolling s) = outstanding s @ [(length (fetched s), Poll (nextInterval s))]
       \<and> (k \<in> intervals s \<longrightarrow> length (fetched (poller_run (replicate n (Tick k)) s)) = length (fetched s) + n)
       \<and> (requests_known s \<and> getLatestDetections_end (world s) outcome = (r, w') \<longrightarrow>
            (k \<in> intervals s \<longrightarrow>
               poller_step (Settle (length (fetched s)) outcome) (poller_step (Tick k) s)
                 = poll_settled k r (s\<lparr>fetched := fetched s @ [rq], world := w'\<rparr>))
            \<and> poller_step (Settle (length (fetched s)) outcome) (poller_step Refresh s)
                 = refreshDetections_settled r (s\<lparr>detectionsLoading := True, fetched := fetched s @ [rq], world := w'\<rparr>)
            \<and> poller_step (Settle (length (fetched s)) outcome) (poller_step StartPolling s)
                 = poll_settled (nextInterval s) r
                     (s\<lparr>nextInterval := Suc (nextInterval s),
                        intervals := insert (nextInterval s) (intervals s),
                        fetched := fetched s @ [rq], world := w'\<rparr>)
            \<and> (\<forall>i a. map_of (outstanding s) i = Some a \<longrightarrow>
                  map_of (outstanding (poller_step (Tick k) s)) i = Some a
                  \<and> map_of (outstanding (poller_step Refresh s)) i = Some a
                  \<and> map_of (outstanding (poller_step StartPolling s)) i = Some a))
       \<and> requests_known (poller_run evs (LiveView_poller w))
       \<and> (requests_known s \<longrightarrow> requests_known (poller_step e s))"
proof -
  have ticks: "\<And>t. k \<in> intervals t \<Longrightarrow> authenticatedFetch_begin (world t) detections_url Map.empty = Inr rq
      \<Longrightarrow> length (fetched (poller_run (replicate n (Tick k)) t)) = length (fetched t) + n"
  proof (induction n)
    case 0
    then show ?case by simp
  next
    case (Suc n)
    have "k \<in> intervals (poll k t)"
      "authenticatedFetch_begin (world (poll k t)) detections_url Map.empty = Inr rq"
      "length (fetched (poll k t)) = Suc (length (fetched t))"
      using Suc.prems by (simp_all add: poll_def)
    with Suc.IH [of "poll k t"] Suc.prems(1) show ?case by simp
  qed
  have dispatch: "(k \<in> intervals s \<longrightarrow>
            fetched (poller_step (Tick k) s) = fetched s @ [rq]
            \<and> outstanding (poller_step (Tick k) s) = outstanding s @ [(length (fetched s), Poll k)])
       \<and> fetched (poller_step Refresh s) = fetched s @ [rq]
       \<and> outstanding (poller_step Refresh s) = outstanding s @ [(length (fetched s), Manual)]
       \<and> fetched (poller_step StartPolling s) = fetched s @ [rq]
       \<and> outstanding (poller_step StartPolling s) = outstanding s @ [(length (fetched s), Poll (nextInterval s))]
       \<and> (k \<in> intervals s \<longrightarrow> length (fetched (poller_run (replicate n (Tick k)) s)) = length (fetched s) + n)"
    using assms ticks [of s]
    by (simp add: poll_def refreshDetections_def startDetectionPolling_def)
  have own: "requests_known s \<and> getLatestDetections_end (world s) outcome = (r, w') \<longrightarrow>
            (k \<in> intervals s \<longrightarrow>
               poller_step (Settle (length (fetched s)) outcome) (poller_step (Tick k) s)
                 = poll_settled k r (s\<lparr>fetched := fetched s @ [rq], world := w'\<rparr>))
            \<and> poller_step (Settle (length (fetched s)) outcome) (poller_step Refresh s)
                 = refreshDetections_settled r (s\<lparr>detectionsLoading := True, fetched := fetched s @ [rq], world := w'\<rparr>)
            \<and> poller_step (Settle (length (fetched s)) outcome) (poller_step StartPolling s)
                 = poll_settled (nextInterval s) r
                     (s\<lparr>nextInterval := Suc (nextInterval s),
                        intervals := insert (nextInterval s) (intervals s),
                        fetched := fetched s @ [rq], world := w'\<rparr>)
            \<and> (\<forall>i a. map_of (outstanding s) i = Some a \<longrightarrow>
                  map_of (outstanding (poller_step (Tick k) s)) i = Some a
                  \<and> map_of (outstanding (poller_step Refresh s)) i = Some a
                  \<and> map_of (outstanding (poller_step StartPolling s)) i = Some a)"
  proof (intro impI)
    assume h: "requests_known s \<and> getLatestDetections_end (world s) outcome = (r, w')"
    from h have known: "requests_known s" by blast
    from h have e: "getLatestDetections_end (world s) outcome = (r, w')" by blast
    have tick: "k \<in> intervals s \<longrightarrow>
               poller_step (Settle (length (fetched s)) outcome) (poller_step (Tick k) s)
                 = poll_settled k r (s\<lparr>fetched := fetched s @ [rq], world := w'\<rparr>)"
      using assms e newest_awaited [OF known, of "Poll k"]
      by (simp add: poll_def settle_def)
    have refresh: "poller_step (Settle (length (fetched s)) outcome) (poller_step Refresh s)
                 = refreshDetections_settled r (s\<lparr>detectionsLoading := True, fetched := fetched s @ [rq], world := w'\<rparr>)"
      using assms e newest_awaited [OF known, of Manual]
      by (simp add: refreshDetections_def settle_def)
    have start: "poller_step (Settle (length (fetched s)) outcome) (poller_step StartPolling s)
                 = poll_settled (nextInterval s) r
                     (s\<lparr>nextInterval := Suc (nextInterval s),
                        intervals := insert (nextInterval s) (intervals s),
                        fetched := fetched s @ [rq], world := w'\<rparr>)"
      using assms e newest_awaited [OF known, of "Poll (nextInterval s)"]
      by (simp add: startDetectionPolling_def poll_def settle_def)
    have others: "\<forall>i a. map_of (outstanding s) i = Some a \<longrightarrow>
                  map_of (outstanding (poller_step (Tick k) s)) i = Some a
                  \<and> map_of (outstanding (poller_step Refresh s)) i = Some a
                  \<and> map_of (outstanding (poller_step StartPolling s)) i = Some a"
      using assms known
      by (auto simp add: poll_def refreshDetections_def startDetectionPolling_def map_add_def
          requests_known_def dest!: map_of_SomeD)
    from tick refresh start others
    show "(k \<in> intervals s \<longrightarrow>
               poller_step (Settle (length (fetched s)) outcome) (poller_step (Tick k) s)
                 = poll_settled k r (s\<lparr>fetched := fetched s @ [rq], world := w'\<rparr>))
            \<and> poller_step (Settle (length (fetched s)) outcome) (poller_step Refresh s)
                 = refreshDetections_settled r (s\<lparr>detectionsLoading := True, fetched := fetched s @ [rq], world := w'\<rparr>)
            \<and> poller_step (Settle (length (fetched s)) outcome) (poller_step StartPolling s)
                 = poll_settled (nextInterval s) r
                     (s\<lparr>nextInterval := Suc (nextInterval s),
                        intervals := insert (nextInterval s) (intervals s),
                        fetched := fetched s @ [rq], world := w'\<rparr>)
            \<and> (\<forall>i a. map_of (outstanding s) i = Some a \<longrightarrow>
                  map_of (outstanding (poller_step (Tick k) s)) i = Some a
                  \<and> map_of (outstanding (poller_step Refresh s)) i = Some a
                  \<and> map_of (outstanding (poller_step StartPolling s)) i = Some a)"
      by blast
  qed
  have reach: "requests_known (poller_run evs (LiveView_poller w))" by (rule known_LiveView)
  have keep: "requests_known s \<longrightarrow> requests_known (poller_step e s)" by (simp add: known_step)
  from dispatch own reach keep show ?thesis by blast
qed

theorem every_call_fetches_witness:
  "authenticatedFetch_begin (world toggled_on) detections_url Map.empty =
     Inr \<lparr>url = detections_url,
          headers = [''Content-Type'' \<mapsto> ''application/json'', ''Authorization'' \<mapsto> ''Bearer tok'']\<rparr>
   \<and> 0 \<in> intervals toggled_on
   \<and> requests_known toggled_on
   \<and> getLatestDetections_end (world toggled_on) (one_item ''person'') = (Inr (snapshot_of ''person''), logged_in)
   \<and> outstanding (poller_step (Tick 0) toggled_on) = [(0, Manual), (1, Poll 0), (2, Poll 0)]
   \<and> outstanding (poller_step Refresh toggled_on) = [(0, Manual), (1, Poll 0), (2, Manual)]
   \<and> length (fetched (poller_run (replicate 3 (Tick 0)) toggled_on)) = 5
   \<and> detData (poller_step (Settle 2 (one_item ''person'')) (poller_step (Tick 0) toggled_on)) = snapshot_of ''person''
   \<and> outstanding (poller_step (Settle 2 (one_item ''person'')) (poller_step (Tick 0) toggled_on))
       = [(0, Manual), (1, Poll 0)]
   \<and> \<not> detectionsLoading (poller_step (Settle 2 (one_item ''person'')) (poller_step Refresh toggled_on))
   \<and> map_of (outstanding toggled_on) 0 = Some Manual
   \<and> map_of (outstanding (poller_step (Tick 0) toggled_on)) 0 = Some Manual"
proof -
  have a: "authenticatedFetch_begin (world toggled_on) detections_url Map.empty =
     Inr \<lparr>url = detections_url,
          headers = [''Content-Type'' \<mapsto> ''application/json'', ''Authorization'' \<mapsto> ''Bearer tok'']\<rparr>"
    by (simp add: toggled_on_eq begin_logged_in)
  have b: "0 \<in> intervals toggled_on" by (simp add: toggled_on_eq)
  have c: "requests_known toggled_on"
    using every_call_fetches [OF a, where evs = "[Refresh, StartPolling]" and w = logged_in]
    by (simp add: toggled_on_def)
  have d: "getLatestDetections_end (world toggled_on) (one_item ''person'') = (Inr (snapshot_of ''person''), logged_in)"
    by (simp add: toggled_on_eq end_one_item)
  have e: "map_of (outstanding toggled_on) 0 = Some Manual" by (simp add: toggled_on_eq)
  have f: "outstanding toggled_on = [(0, Manual), (1, Poll 0)]" "length (fetched toggled_on) = 2"
    by (simp_all add: toggled_on_eq)
  from every_call_fetches [OF a, where k = 0 and n = 3 and outcome = "one_item ''person''"
      and r = "Inr (snapshot_of ''person'')" and w' = logged_in] b c d e f
  have g: "outstanding (poller_step (Tick 0) toggled_on) = [(0, Manual), (1, Poll 0), (2, Poll 0)]
      \<and> outstanding (poller_step Refresh toggled_on) = [(0, Manual), (1, Poll 0), (2, Manual)]
      \<and> length (fetched (poller_run (replicate 3 (Tick 0)) toggled_on)) = 5
      \<and> poller_step (Settle 2 (one_item ''person'')) (poller_step (Tick 0) toggled_on)
          = poll_settled 0 (Inr (snapshot_of ''person''))
              (toggled_on\<lparr>fetched := fetched toggled_on @
                 [\<lparr>url = detections_url,
                   headers = [''Content-Type'' \<mapsto> ''application/json'', ''Authorization'' \<mapsto> ''Bearer tok'']\<rparr>],
                 world := logged_in\<rparr>)
      \<and> poller_step (Settle 2 (one_item ''person'')) (poller_step Refresh toggled_on)
          = refreshDetections_settled (Inr (snapshot_of ''person''))
              (toggled_on\<lparr>detectionsLoading := True, fetched := fetched toggled_on @
                 [\<lparr>url = detections_url,
                   headers = [''Content-Type'' \<mapsto> ''application/json'', ''Authorization'' \<mapsto> ''Bearer tok'']\<rparr>],
                 world := logged_in\<rparr>)
      \<and> map_of (outstanding (poller_step (Tick 0) toggled_on)) 0 = Some Manual"
    by simp
  then have "detData (poller_step (Settle 2 (one_item ''person'')) (poller_step (Tick 0) toggled_on)) = snapshot_of ''person''
      \<and> outstanding (poller_step (Settle 2 (one_item ''person'')) (poller_step (Tick 0) toggled_on))
          = [(0, Manual), (1, Poll 0)]
      \<and> \<not> detectionsLoading (poller_step (Settle 2 (one_item ''person'')) (poller_step Refresh toggled_on))"
    using f by (simp add: poll_settled_def refreshDetections_settled_def)
  with a b c d e g show ?thesis by blast
qed




section \<open>The stream\<close>

lemma answered_try: "startStream_try answered = None"
  by (simp add: startStream_try_def answered_def ok_def)

lemma playing_stream_eq:
  "playing_stream =
     \<lparr>streamState = streaming, streamError = [], hasVideo = True,
      peerConnections = 1, negotiating = 0, plays = 0\<rparr>"
  by (simp add: playing_stream_def LiveView_stream_def startStream_def startStream_settled_def answered_try
      ontrack_def play_settled_def)

text \<open>
  Claim C6: \<open>startStream\<close> called while the state is connecting or streaming changes
  nothing; no event takes the stream from streaming to connecting; the state becomes
  connecting, and a new peer connection is created, only by \<open>startStream\<close> called in the
  idle or the error state.
\<close>

theorem start_only_from_idle_or_error:
  "(streamState s = connecting \<or> streamState s = streaming \<longrightarrow> startStream s = s)
   \<and> (streamState s = streaming \<longrightarrow> streamState (stream_step e s) \<noteq> connecting)
   \<and> (streamState (stream_step e s) = connecting \<and> streamState s \<noteq> connecting \<longrightarrow>
        e = StartStream \<and> (streamState s = idle \<or> streamState s = error))
   \<and> (peerConnections (stream_step e s) \<noteq> peerConnections s \<longrightarrow>
        e = StartStream \<and> (streamState s = idle \<or> streamState s = error)
        \<and> streamState (stream_step e s) = connecting)"
proof (cases e)
  case StartStream
  then show ?thesis by (cases "streamState s") (simp_all add: startStream_def)
next
  case (Negotiated sg)
  then show ?thesis
    by (cases "streamState s") (auto simp add: startStream_def startStream_settled_def split: option.splits)
next
  case (Track a b)
  then show ?thesis by (cases "streamState s") (auto simp add: startStream_def ontrack_def)
next
  case (PlaySettled b)
  then show ?thesis by (cases "streamState s") (auto simp add: startStream_def play_settled_def)
next
  case Playing
  then show ?thesis by (cases "streamState s") (auto simp add: startStream_def onPlaying_def)
qed

theorem start_only_from_idle_or_error_witness:
  "streamState playing_stream = streaming
   \<and> startStream playing_stream = playing_stream
   \<and> streamState (stream_step StartStream playing_stream) \<noteq> connecting
   \<and> streamState LiveView_stream = idle
   \<and> streamState (stream_step StartStream LiveView_stream) = connecting
   \<and> peerConnections (stream_step StartStream LiveView_stream) \<noteq> peerConnections LiveView_stream"
  using start_only_from_idle_or_error [of playing_stream StartStream]
    start_only_from_idle_or_error [of LiveView_stream StartStream]
  by (simp add: playing_stream_eq LiveView_stream_def startStream_def)





section \<open>The control commands\<close>

lemma filter_without:
  assumes "i < length xs"
  shows "filter P xs = filter P (take i xs) @ (if P (xs ! i) then [xs ! i] else []) @ filter P (drop (Suc i) xs)"
proof -
  have "xs = take i xs @ xs ! i # drop (Suc i) xs" using assms by (rule id_take_nth_drop)
  then have "filter P xs = filter P (take i xs @ xs ! i # drop (Suc i) xs)" by simp
  then show ?thesis by simp
qed

lemma set_without: "set (take i xs @ drop (Suc i) xs) \<subseteq> set xs"
  using set_take_subset [of i xs] set_drop_subset [of "Suc i" xs] by auto

lemma pending_without_own:
  assumes "i < length (sending s)" and "fst (sending s ! i) = mount s" and "length (pending s) \<le> 1"
  shows "filter (\<lambda>p. fst p = mount s) (take i (sending s) @ drop (Suc i) (sending s)) = []"
proof -
  from filter_without [OF assms(1), of "\<lambda>p. fst p = mount s"] assms(2)
  have "pending s = filter (\<lambda>p. fst p = mount s) (take i (sending s)) @ [sending s ! i]
          @ filter (\<lambda>p. fst p = mount s) (drop (Suc i) (sending s))"
    by (simp add: pending_def)
  with assms(3) have "filter (\<lambda>p. fst p = mount s) (take i (sending s)) = []
      \<and> filter (\<lambda>p. fst p = mount s) (drop (Suc i) (sending s)) = []"
    by (cases "filter (\<lambda>p. fst p = mount s) (take i (sending s))") auto
  then show ?thesis by simp
qed

lemma pending_without_other:
  assumes "i < length (sending s)" and "fst (sending s ! i) \<noteq> mount s"
  shows "filter (\<lambda>p. fst p = mount s) (take i (sending s) @ drop (Suc i) (sending s)) = pending s"
  using filter_without [OF assms(1), of "\<lambda>p. fst p = mount s"] assms(2)
  by (simp add: pending_def)

lemma control_inv_pending: "control_inv s \<Longrightarrow> mounted s \<Longrightarrow> length (pending s) \<le> 1"
  by (auto simp add: control_inv_def split: option.splits)

lemma control_inv_step: "control_inv s \<Longrightarrow> control_inv (control_step e s)"
proof (cases e)
  case (Click c)
  assume "control_inv s"
  then show ?thesis using Click
    by (cases c) (auto simp add: control_inv_def pending_def click_def handleStopTracking_def
        handleMarkThreat_def split: option.splits)
next
  case (Settled i outcome)
  assume inv: "control_inv s"
  show ?thesis
  proof (cases "i < length (sending s)")
    case False
    then show ?thesis using inv Settled by simp
  next
    case True
    obtain m c where mc: "sending s ! i = (m, c)" by (cases "sending s ! i")
    let ?rest = "take i (sending s) @ drop (Suc i) (sending s)"
    have older: "\<forall>p \<in> set ?rest. fst p \<le> mount s"
      using inv set_without [of i "sending s"] by (auto simp add: control_inv_def)
    show ?thesis
    proof (cases "mounted s \<and> m = mount s")
      case own: True
      then have "filter (\<lambda>p. fst p = mount s) ?rest = []"
        using pending_without_own [OF True] mc control_inv_pending [OF inv] by simp
      then show ?thesis using Settled True mc own older
        by (cases c)
           (simp_all add: command_settled_def control_inv_def pending_def handleStopTracking_settled_def
             handleMarkThreat_settled_def split: option.splits)
    next
      case other: False
      have "mounted s \<longrightarrow> filter (\<lambda>p. fst p = mount s) ?rest = pending s"
        using pending_without_other [OF True] mc other by simp
      then show ?thesis using Settled True mc other older inv
        by (auto simp add: command_settled_def control_inv_def pending_def split: option.splits)
    qed
  qed
next
  case Unmount
  assume "control_inv s"
  then show ?thesis using Unmount by (simp add: control_inv_def)
next
  case Mount
  assume inv: "control_inv s"
  show ?thesis
  proof (cases "mounted s")
    case True
    then show ?thesis using inv Mount by simp
  next
    case False
    have "filter (\<lambda>p. fst p = Suc (mount s)) (sending s) = []"
      using inv by (auto simp add: control_inv_def filter_empty_conv)
    then show ?thesis using inv Mount False
      by (auto simp add: control_inv_def pending_def LiveView_mount_def)
  qed
qed

lemma control_inv_run: "control_inv s \<Longrightarrow> control_inv (control_run evs s)"
  by (induction evs arbitrary: s) (simp_all add: control_inv_step)

lemma control_inv_LiveView: "control_inv (control_run evs LiveView_control)"
  by (rule control_inv_run) (simp add: control_inv_def pending_def LiveView_control_def)

lemma remounted_eq:
  "remounted = \<lparr>mounted = True, mount = 1, controlLoading = Some threat, controlMsg = [],
                 sending = [(0, stop), (1, threat)]\<rparr>"
  by (simp add: remounted_def LiveView_control_def click_def handleStopTracking_def handleMarkThreat_def
      LiveView_mount_def)

text \<open>
  Claim C8, as stated: at most one command is pending at any time, and a dispatch while
  one is pending is rejected. It fails across mounts of LiveView: stop tracking is
  clicked, LiveView is unmounted and mounted again before the request has settled, and
  the click on mark threat is accepted; two commands are unsettled.
\<close>

theorem second_command_after_remount_counterexample:
  "sending remounted = [(0, stop), (1, threat)] \<and> controlLoading remounted = Some threat"
  by (simp add: remounted_eq)

text \<open>
  Claim C8, amended: within one mount of LiveView at most one command of that mount is
  pending, across both kinds, and one is pending exactly when \<open>controlLoading\<close> is set.
  While it is set a click on either button does nothing; when the request of that command
  settles, successfully or not, \<open>controlLoading\<close> is cleared, and a click right after
  that is accepted and sends its command. The settling of a command that an earlier mount
  posted leaves \<open>controlLoading\<close>, the message and the pending command of the current
  mount as they are. This holds in every state that clicks, settlements, unmounts and
  mounts can lead to.
\<close>

theorem one_pending_command_per_mount:
  assumes "s = control_run evs LiveView_control" and "mounted s"
  shows "length (pending s) \<le> 1
       \<and> (controlLoading s = None) = (pending s = [])
       \<and> (controlLoading s \<noteq> None \<longrightarrow> control_step (Click c) s = s)
       \<and> (i < length (sending s) \<and> fst (sending s ! i) = mount s \<longrightarrow>
            controlLoading (control_step (Settled i outcome) s) = None
            \<and> pending (control_step (Settled i outcome) s) = []
            \<and> controlLoading (control_step (Click c) (control_step (Settled i outcome) s)) = Some c
            \<and> pending (control_step (Click c) (control_step (Settled i outcome) s)) = [(mount s, c)])
       \<and> (i < length (sending s) \<and> fst (sending s ! i) \<noteq> mount s \<longrightarrow>
            controlLoading (control_step (Settled i outcome) s) = controlLoading s
            \<and> controlMsg (control_step (Settled i outcome) s) = controlMsg s
            \<and> pending (control_step (Settled i outcome) s) = pending s)"
proof -
  have inv: "control_inv s" using assms(1) control_inv_LiveView by simp
  have a: "length (pending s) \<le> 1 \<and> (controlLoading s = None) = (pending s = [])"
    using inv assms(2) by (auto simp add: control_inv_def split: option.splits)
  have b: "controlLoading s \<noteq> None \<longrightarrow> control_step (Click c) s = s"
    by (simp add: click_def)
  have c: "i < length (sending s) \<and> fst (sending s ! i) = mount s \<longrightarrow>
            mounted (control_step (Settled i outcome) s)
            \<and> mount (control_step (Settled i outcome) s) = mount s
            \<and> controlLoading (control_step (Settled i outcome) s) = None
            \<and> pending (control_step (Settled i outcome) s) = []"
  proof
    assume h: "i < length (sending s) \<and> fst (sending s ! i) = mount s"
    then have i: "i < length (sending s)" and own: "fst (sending s ! i) = mount s" by blast+
    obtain m k where mk: "sending s ! i = (m, k)" by (cases "sending s ! i")
    have "filter (\<lambda>p. fst p = mount s) (take i (sending s) @ drop (Suc i) (sending s)) = []"
      using i own control_inv_pending [OF inv assms(2)] by (rule pending_without_own)
    then show "mounted (control_step (Settled i outcome) s)
            \<and> mount (control_step (Settled i outcome) s) = mount s
            \<and> controlLoading (control_step (Settled i outcome) s) = None
            \<and> pending (control_step (Settled i outcome) s) = []"
      using i own mk assms(2)
      by (cases k)
         (simp_all add: command_settled_def pending_def handleStopTracking_settled_def
           handleMarkThreat_settled_def split: option.splits)
  qed
  have d: "\<And>t. mounted t \<and> controlLoading t = None \<and> pending t = [] \<Longrightarrow>
       controlLoading (control_step (Click c) t) = Some c \<and> pending (control_step (Click c) t) = [(mount t, c)]"
    by (cases c) (simp_all add: click_def pending_def handleStopTracking_def handleMarkThreat_def)
  have e: "i < length (sending s) \<and> fst (sending s ! i) \<noteq> mount s \<longrightarrow>
            controlLoading (control_step (Settled i outcome) s) = controlLoading s
            \<and> controlMsg (control_step (Settled i outcome) s) = controlMsg s
            \<and> pending (control_step (Settled i outcome) s) = pending s"
  proof
    assume h: "i < length (sending s) \<and> fst (sending s ! i) \<noteq> mount s"
    then have i: "i < length (sending s)" and other: "fst (sending s ! i) \<noteq> mount s" by blast+
    obtain m k where mk: "sending s ! i = (m, k)" by (cases "sending s ! i")
    have "filter (\<lambda>p. fst p = mount s) (take i (sending s) @ drop (Suc i) (sending s)) = pending s"
      using i other by (rule pending_without_other)
    then show "controlLoading (control_step (Settled i outcome) s) = controlLoading s
            \<and> controlMsg (control_step (Settled i outcome) s) = controlMsg s
            \<and> pending (control_step (Settled i outcome) s) = pending s"
      using i other mk by (simp add: command_settled_def pending_def)
  qed
  show ?thesis
  proof (cases "i < length (sending s) \<and> fst (sending s ! i) = mount s")
    case True
    with c have c': "mounted (control_step (Settled i outcome) s)
            \<and> mount (control_step (Settled i outcome) s) = mount s
            \<and> controlLoading (control_step (Settled i outcome) s) = None
            \<and> pending (control_step (Settled i outcome) s) = []" by blast
    from d [of "control_step (Settled i outcome) s"] c'
    have "controlLoading (control_step (Click c) (control_step (Settled i outcome) s)) = Some c
        \<and> pending (control_step (Click c) (control_step (Settled i outcome) s)) = [(mount s, c)]"
      by simp
    with a b c' e show ?thesis by blast
  next
    case False
    with a b e show ?thesis by blast
  qed
qed

theorem one_pending_command_per_mount_witness:
  "mounted remounted
   \<and> length (pending remounted) \<le> 1
   \<and> controlLoading remounted \<noteq> None
   \<and> control_step (Click stop :: unit control_event) remounted = remounted
   \<and> fst (sending remounted ! 1) = mount remounted
   \<and> controlLoading (control_step (Settled 1 (Rejected (Error ''Failed to fetch'') :: unit fetch_outcome)) remounted) = None
   \<and> pending (control_step (Click stop :: unit control_event)
        (control_step (Settled 1 (Rejected (Error ''Failed to fetch''))) remounted)) = [(1, stop)]
   \<and> fst (sending remounted ! 0) \<noteq> mount remounted
   \<and> controlLoading (control_step (Settled 0 (Rejected (Error ''Failed to fetch'') :: unit fetch_outcome)) remounted)
       = Some threat"
proof -
  have r: "remounted = control_run [Click stop, Unmount, Mount, Click threat :: unit control_event] LiveView_control"
    by (simp add: remounted_def)
  have m: "mounted remounted" by (simp add: remounted_eq)
  from one_pending_command_per_mount [OF r m, of stop 1 "Rejected (Error ''Failed to fetch'') :: unit fetch_outcome"]
    one_pending_command_per_mount [OF r m, of stop 0 "Rejected (Error ''Failed to fetch'') :: unit fetch_outcome"]
  show ?thesis
    by (simp add: remounted_eq pending_def command_settled_def handleMarkThreat_settled_def
        sendMarkThreat_end_def click_def handleStopTracking_def)
qed

section \<open>The upload gate\<close>






section \<open>getLatestDetections\<close>

text \<open>
  Claim C10: when the response is read successfully and holds no items, and when the
  \<^verbatim>\<open>try\<close> block throws an error whose message does not contain \<open>login\<close>,
  \<open>getLatestDetections\<close> resolves with the empty snapshot, whose \<open>fps\<close> is 0 and whose
  detections are empty; it rejects only with an error whose message contains \<open>login\<close>,
  and then with the very error that was thrown.
\<close>

theorem getLatestDetections_fallback:
  "(\<forall>res data w'. authenticatedFetch w remote detections_url Map.empty = (Inr res, w') \<and> ok res
        \<and> body_json res = Inr data \<and> (Items data = None \<or> Items data = Some []) \<longrightarrow>
        getLatestDetections w remote = (Inr (no_detections w'), w'))
   \<and> (\<forall>e w'. getLatestDetections_try w remote = (Inl e, w') \<and> \<not> js_includes (message e) ''login'' \<longrightarrow>
        getLatestDetections w remote = (Inr (no_detections w'), w'))
   \<and> (\<forall>e. fst (getLatestDetections w remote) = Inl e \<longrightarrow>
        js_includes (message e) ''login'' \<and> fst (getLatestDetections_try w remote) = Inl e)
   \<and> fps (no_detections w0) = 0 \<and> detections (no_detections w0) = []"
proof (intro conjI allI impI)
  fix res data w'
  assume h: "authenticatedFetch w remote detections_url Map.empty = (Inr res, w') \<and> ok res
        \<and> body_json res = Inr data \<and> (Items data = None \<or> Items data = Some [])"
  then have "getLatestDetections_try w remote = (getLatestDetections_body w' res, w')"
    by (auto simp add: getLatestDetections_try_def getLatestDetections_try_end_def
        authenticatedFetch_def split: sum.splits prod.splits)
  moreover from h have "getLatestDetections_body w' res = Inr (no_detections w')"
    by (auto simp add: getLatestDetections_body_def)
  ultimately show "getLatestDetections w remote = (Inr (no_detections w'), w')"
    by (simp add: getLatestDetections_def getLatestDetections_settle_def)
next
  fix e w'
  assume "getLatestDetections_try w remote = (Inl e, w') \<and> \<not> js_includes (message e) ''login''"
  then show "getLatestDetections w remote = (Inr (no_detections w'), w')"
    by (simp add: getLatestDetections_def getLatestDetections_settle_def getLatestDetections_catch_def)
next
  fix e
  assume h: "fst (getLatestDetections w remote) = Inl e"
  obtain r w' where t: "getLatestDetections_try w remote = (r, w')"
    by (cases "getLatestDetections_try w remote")
  with h show "js_includes (message e) ''login''"
    by (cases r) (auto simp add: getLatestDetections_def getLatestDetections_settle_def
        getLatestDetections_catch_def split: if_splits)
  from h t show "fst (getLatestDetections_try w remote) = Inl e"
    by (cases r) (auto simp add: getLatestDetections_def getLatestDetections_settle_def
        getLatestDetections_catch_def split: if_splits)
qed (simp_all add: no_detections_def)


theorem getLatestDetections_fallback_witness:
  "authenticatedFetch logged_in empty_items detections_url Map.empty
     = (Inr \<lparr>status = 200, statusText = ''OK'', body_text = Inr ''{\"Items\":[]}'',
             body_json = Inr \<lparr>Items = Some []\<rparr>\<rparr>, logged_in)
   \<and> getLatestDetections logged_in empty_items = (Inr (no_detections logged_in), logged_in)
   \<and> getLatestDetections_try logged_in server_error
       = (Inl (Error ''AWS /detections failed: 500 Internal Server Error - boom''), logged_in)
   \<and> \<not> js_includes ''AWS /detections failed: 500 Internal Server Error - boom'' ''login''
   \<and> getLatestDetections logged_in server_error = (Inr (no_detections logged_in), logged_in)
   \<and> fst (getLatestDetections logged_in (\<lambda>rq. Responded unauthorized))
       = Inl (Error ''Session expired. Please login again.'')
   \<and> js_includes ''Session expired. Please login again.'' ''login''
   \<and> fps (no_detections logged_in) = 0 \<and> detections (no_detections logged_in) = []"
proof -
  let ?res = "\<lparr>status = 200, statusText = ''OK'', body_text = Inr ''{\"Items\":[]}'',
             body_json = Inr \<lparr>Items = Some []\<rparr>\<rparr> :: GetDetectionsResponse response"
  have a: "authenticatedFetch logged_in empty_items detections_url Map.empty = (Inr ?res, logged_in)"
    by (simp add: authenticatedFetch_def begin_logged_in authenticatedFetch_end_def empty_items_def)
  have a': "ok ?res \<and> body_json ?res = Inr \<lparr>Items = Some []\<rparr>" by (simp add: ok_def)
  have b: "getLatestDetections_try logged_in server_error
       = (Inl (Error ''AWS /detections failed: 500 Internal Server Error - boom''), logged_in)"
    by (simp add: getLatestDetections_try_def begin_logged_in getLatestDetections_try_end_def
        authenticatedFetch_end_def server_error_def getLatestDetections_body_def ok_def decimal.simps)
  have b': "\<not> js_includes ''AWS /detections failed: 500 Internal Server Error - boom'' ''login''"
    by simp
  have c: "fst (getLatestDetections logged_in (\<lambda>rq. Responded unauthorized))
       = Inl (Error ''Session expired. Please login again.'')"
    by (simp add: getLatestDetections_def getLatestDetections_try_def begin_logged_in
        getLatestDetections_try_end_def authenticatedFetch_end_def unauthorized_def
        getLatestDetections_settle_def getLatestDetections_catch_def)
  from getLatestDetections_fallback [of logged_in empty_items logged_in] a a'
  have r1: "getLatestDetections logged_in empty_items = (Inr (no_detections logged_in), logged_in)"
    by simp
  from getLatestDetections_fallback [of logged_in server_error logged_in] b b'
  have r2: "getLatestDetections logged_in server_error = (Inr (no_detections logged_in), logged_in)"
    by simp
  from getLatestDetections_fallback [of logged_in "\<lambda>rq. Responded unauthorized" logged_in] c
  have r3: "js_includes ''Session expired. Please login again.'' ''login''
      \<and> fps (no_detections logged_in) = 0 \<and> detections (no_detections logged_in) = []"
    by simp
  from a r1 b b' r2 c r3 show ?thesis by blast
qed

end
